theory Spec2Isabelle
  imports Main
begin

section \<open>Exceptions, dates and strings\<close>

text \<open>
  The exception classes that the program raises or catches. In httpx,
  \<open>RequestError\<close> (connection failures, timeouts) and \<open>HTTPStatusError\<close> (what
  \<open>raise_for_status\<close> raises) are sibling subclasses of \<open>HTTPError\<close>: an
  \<open>except httpx.RequestError\<close> clause does not catch an \<open>HTTPStatusError\<close>.
  \<open>IOError\<close> is Python's \<open>OSError\<close>.
\<close>

datatype exn = RequestError | HTTPStatusError | OSError | ValueError | IndexError | WebDriverException

text \<open>
  A Python \<open>datetime\<close>: the calendar date and the time of day. Python only builds
  values that pass \<open>check_date_fields\<close> below (years 1 to 9999).
\<close>

record datetime =
  dt_year :: int
  dt_month :: int
  dt_day :: int
  dt_hour :: int
  dt_minute :: int
  dt_second :: int

definition isleap :: "int \<Rightarrow> bool" where
  "isleap y = (y mod 4 = 0 \<and> (y mod 100 \<noteq> 0 \<or> y mod 400 = 0))"

text \<open>The number of days of month \<open>m\<close> (1 to 12) of year \<open>y\<close>.\<close>

definition days_in_month :: "int \<Rightarrow> int \<Rightarrow> int" where
  "days_in_month y m =
     (if m = 2 \<and> isleap y then 29
      else [0, 31, 28, 31, 30, 31, 30, 31, 31, 30, 31, 30, 31] ! nat m)"

definition check_date_fields :: "int \<Rightarrow> int \<Rightarrow> int \<Rightarrow> bool" where
  "check_date_fields y m d =
     (1 \<le> y \<and> y \<le> 9999 \<and> 1 \<le> m \<and> m \<le> 12 \<and> 1 \<le> d \<and> d \<le> days_in_month y m)"

text \<open>\<open>datetime(y, m, d)\<close>: midnight of that day, or \<open>ValueError\<close>.\<close>

definition datetime_new :: "int \<Rightarrow> int \<Rightarrow> int \<Rightarrow> exn + datetime" where
  "datetime_new y m d =
     (if check_date_fields y m d
      then Inr \<lparr>dt_year = y, dt_month = m, dt_day = d, dt_hour = 0, dt_minute = 0, dt_second = 0\<rparr>
      else Inl ValueError)"

text \<open>
  Characters are the code points below 256; among them the decimal digits that the
  regular expression class \<open>\d\<close> accepts are \<open>0\<close> to \<open>9\<close>, and the characters that
  \<open>str.strip\<close> removes are the ones listed in \<open>isspace\<close>.
\<close>

definition isdigit :: "char \<Rightarrow> bool" where
  "isdigit c = (48 \<le> (of_char c :: nat) \<and> (of_char c :: nat) \<le> 57)"

definition isspace :: "char \<Rightarrow> bool" where
  "isspace c = ((of_char c :: nat) \<in> {9, 10, 11, 12, 13, 28, 29, 30, 31, 32, 133, 160})"

definition strip :: "string \<Rightarrow> string" where
  "strip s = rev (dropWhile isspace (rev (dropWhile isspace s)))"

definition digit_value :: "char \<Rightarrow> int" where
  "digit_value c = int (of_char c) - 48"

text \<open>\<open>int(s)\<close> on a string of decimal digits.\<close>

definition int_of_digits :: "string \<Rightarrow> int" where
  "int_of_digits s = foldl (\<lambda>acc c. 10 * acc + digit_value c) 0 s"

definition digit_char :: "int \<Rightarrow> char" where
  "digit_char n = ''0123456789'' ! nat n"

text \<open>A number from 0 to 99 in decimal, padded with a zero to two digits.\<close>

definition zero_pad2 :: "int \<Rightarrow> string" where
  "zero_pad2 n = [digit_char (n div 10), digit_char (n mod 10)]"

text \<open>A number from 0 to 9999 in decimal, without padding.\<close>

definition decimal :: "int \<Rightarrow> string" where
  "decimal n =
     (if n < 10 then [digit_char n]
      else if n < 100 then [digit_char (n div 10), digit_char (n mod 10)]
      else if n < 1000 then
        [digit_char (n div 100), digit_char (n div 10 mod 10), digit_char (n mod 10)]
      else
        [digit_char (n div 1000), digit_char (n div 100 mod 10),
         digit_char (n div 10 mod 10), digit_char (n mod 10)])"

text \<open>
  \<open>strftime("%m")\<close> and \<open>strftime("%Y")\<close> of a datetime, as CPython gives them
  on Linux: the month padded to two digits, the year in decimal without padding
  (\<open>999\<close>, not \<open>0999\<close>).
\<close>

definition strftime_m :: "datetime \<Rightarrow> string" where
  "strftime_m t = zero_pad2 (dt_month t)"

definition strftime_Y :: "datetime \<Rightarrow> string" where
  "strftime_Y t = decimal (dt_year t)"

text \<open>
  \<open>datetime.strptime(date_str, "%Y%m%d")\<close> on the strings the orchestrator passes,
  which are exactly eight decimal digits: digits 1-4 are the year, 5-6 the month,
  7-8 the day; anything that is not a calendar date raises \<open>ValueError\<close>.
\<close>

definition strptime_Ymd :: "string \<Rightarrow> exn + datetime" where
  "strptime_Ymd date_str =
     (if length date_str = 8 \<and> list_all isdigit date_str
      then datetime_new (int_of_digits (take 4 date_str))
             (int_of_digits (take 2 (drop 4 date_str)))
             (int_of_digits (drop 6 date_str))
      else Inl ValueError)"

text \<open>
  \<open>re.search(r"(\d{8})", s)\<close> followed by \<open>match.group(1)\<close>: the leftmost eight
  consecutive digits of \<open>s\<close>, or \<open>None\<close> when there is no match.
\<close>

fun re_search_d8 :: "string \<Rightarrow> string option" where
  "re_search_d8 [] = None"
| "re_search_d8 (c # cs) =
     (if 8 \<le> length (c # cs) \<and> list_all isdigit (take 8 (c # cs))
      then Some (take 8 (c # cs))
      else re_search_d8 cs)"

text \<open>\<open>os.path.basename\<close> and \<open>os.path.join\<close> of two components (POSIX).\<close>

definition basename :: "string \<Rightarrow> string" where
  "basename p = rev (takeWhile (\<lambda>c. c \<noteq> CHR ''/'') (rev p))"

definition path_join :: "string \<Rightarrow> string \<Rightarrow> string" where
  "path_join a b =
     (if b \<noteq> [] \<and> hd b = CHR ''/'' then b
      else if a = [] \<or> last a = CHR ''/'' then a @ b
      else a @ ''/'' @ b)"

section \<open>The storage API: crud.py and main.py\<close>

text \<open>
  \<open>GazetteBase\<close> is the request body of a POST; the ORM row \<open>Gazette\<close> adds the
  primary key. The table is the list of its rows, with the next key the database
  will assign.
\<close>

record GazetteBase =
  url :: string
  publication_date :: datetime

record Gazette = GazetteBase +
  gazette_id :: int

record db =
  rows :: "Gazette list"
  next_id :: int

text \<open>
  \<open>create_gazette\<close>: the first row with the url of the request, if there is one, is
  returned and nothing is written; otherwise a row is added, committed and returned.
\<close>

definition create_gazette :: "db \<Rightarrow> GazetteBase \<Rightarrow> Gazette \<times> db" where
  "create_gazette s gazette =
     (case find (\<lambda>r. url r = url gazette) (rows s) of
        Some db_gazette \<Rightarrow> (db_gazette, s)
      | None \<Rightarrow>
          (let db_gazette = \<lparr>url = url gazette, publication_date = publication_date gazette,
                             gazette_id = next_id s\<rparr>
           in (db_gazette, s\<lparr>rows := rows s @ [db_gazette], next_id := next_id s + 1\<rparr>)))"

definition get_gazettes :: "db \<Rightarrow> nat \<Rightarrow> nat \<Rightarrow> Gazette list" where
  "get_gazettes s skip limit = take limit (drop skip (rows s))"

definition get_gazettes_by_month_year :: "db \<Rightarrow> int \<Rightarrow> int \<Rightarrow> Gazette list" where
  "get_gazettes_by_month_year s month year =
     filter (\<lambda>r. dt_year (publication_date r) = year)
       (filter (\<lambda>r. dt_month (publication_date r) = month) (rows s))"

datatype http_error = HTTPException nat

text \<open>Python's truth value of an \<open>Optional[int]\<close>: \<open>None\<close> and \<open>0\<close> are false.\<close>

fun truthy :: "int option \<Rightarrow> bool" where
  "truthy None = False"
| "truthy (Some n) = (n \<noteq> 0)"

text \<open>The handler of \<open>GET /gazettes/\<close>, once the query parameters are parsed.\<close>

definition read_gazettes ::
  "int option \<Rightarrow> int option \<Rightarrow> nat \<Rightarrow> nat \<Rightarrow> db \<Rightarrow> http_error + Gazette list" where
  "read_gazettes month year skip limit s =
     (if truthy month \<and> truthy year
      then Inr (get_gazettes_by_month_year s (the month) (the year))
      else if (truthy month \<and> \<not> truthy year) \<or> (\<not> truthy month \<and> truthy year)
      then Inl (HTTPException 400)
      else Inr (get_gazettes s skip limit))"

text \<open>
  The route: \<open>Query(None, ge=1, le=12)\<close> rejects a month outside 1..12 with status
  422 before the handler runs; \<open>year\<close> is any integer.
\<close>

definition get_gazettes_route ::
  "int option \<Rightarrow> int option \<Rightarrow> nat \<Rightarrow> nat \<Rightarrow> db \<Rightarrow> http_error + Gazette list" where
  "get_gazettes_route month year skip limit s =
     (case month of
        Some m \<Rightarrow>
          (if m < 1 \<or> 12 < m then Inl (HTTPException 422)
           else read_gazettes month year skip limit s)
      | None \<Rightarrow> read_gazettes month year skip limit s)"

text \<open>The records a response carries: none when it is an error.\<close>

fun response_records :: "http_error + Gazette list \<Rightarrow> Gazette list" where
  "response_records (Inl e) = []"
| "response_records (Inr gs) = gs"

section \<open>The scraper: scraper.py\<close>

text \<open>
  \<open>today - relativedelta(months=1)\<close>: the month is decremented and brought back
  into 1..12 with the year adjusted, the day is cut down to the length of the new
  month, and \<open>datetime.replace\<close> raises \<open>ValueError\<close> when the result is not a
  date Python can represent.
\<close>

definition previous_month_date :: "datetime \<Rightarrow> exn + datetime" where
  "previous_month_date today =
     (let month = dt_month today - 1;
          year = (if 12 < month then dt_year today + 1
                  else if month < 1 then dt_year today - 1 else dt_year today);
          month = (if 12 < month then month - 12
                   else if month < 1 then month + 12 else month);
          day = min (days_in_month year month) (dt_day today)
      in if check_date_fields year month day
         then Inr (today\<lparr>dt_year := year, dt_month := month, dt_day := day\<rparr>)
         else Inl ValueError)"

text \<open>
  The first lines of \<open>_perform_search\<close>: the values \<open>target_month\<close> and
  \<open>target_year\<close> that are selected in the form.
\<close>

definition perform_search_target :: "datetime \<Rightarrow> exn + string \<times> string" where
  "perform_search_target today =
     (case previous_month_date today of
        Inl e \<Rightarrow> Inl e
      | Inr previous \<Rightarrow> Inr (strftime_m previous, strftime_Y previous))"

text \<open>
  \<open>list(executor.map(f, xs))\<close>: the results in the order of the inputs; when a call
  raised, the exception of the first such input is raised in place of the list.
\<close>

fun executor_map :: "('a \<Rightarrow> exn + 'b) \<Rightarrow> 'a list \<Rightarrow> exn + 'b list" where
  "executor_map f [] = Inr []"
| "executor_map f (x # xs) =
     (case f x of
        Inl e \<Rightarrow> Inl e
      | Inr y \<Rightarrow> (case executor_map f xs of Inl e \<Rightarrow> Inl e | Inr ys \<Rightarrow> Inr (y # ys)))"

text \<open>\<open>[r for r in results if r is not None]\<close>.\<close>

fun not_none :: "'a option list \<Rightarrow> 'a list" where
  "not_none [] = []"
| "not_none (None # rs) = not_none rs"
| "not_none (Some r # rs) = r # not_none rs"

text \<open>
  \<open>_download_file\<close>. The parameter \<open>stream\<close> is the network and the disk: for a
  link and a local path it tells whether the streamed GET, \<open>raise_for_status\<close> and
  the writes went through (\<open>None\<close>) or which exception was raised. Only
  \<open>RequestError\<close> is caught.
\<close>

definition download_file ::
  "(string \<Rightarrow> string \<Rightarrow> exn option) \<Rightarrow> string \<Rightarrow> string \<Rightarrow> exn + string option" where
  "download_file stream download_path link =
     (let filename = basename link;
          save_path = path_join download_path filename
      in case stream link save_path of
           None \<Rightarrow> Inr (Some save_path)
         | Some e \<Rightarrow> (if e = RequestError then Inr None else Inl e))"

definition download_all_files ::
  "(string \<Rightarrow> string \<Rightarrow> exn option) \<Rightarrow> string \<Rightarrow> string list \<Rightarrow> exn + string list" where
  "download_all_files stream download_path links =
     (case executor_map (download_file stream download_path) links of
        Inl e \<Rightarrow> Inl e
      | Inr results \<Rightarrow> Inr (not_none results))"

text \<open>
  \<open>find_and_download_files\<close>. The parameter \<open>browser\<close> is the remote browser
  session: for the month and year selected in the form it gives the links found in
  the results table, or the exception of the driver.
\<close>

definition find_and_download_files ::
  "(string \<Rightarrow> string \<Rightarrow> exn + string list) \<Rightarrow> (string \<Rightarrow> string \<Rightarrow> exn option) \<Rightarrow>
   string \<Rightarrow> datetime \<Rightarrow> exn + string list" where
  "find_and_download_files browser stream download_path today =
     (case perform_search_target today of
        Inl e \<Rightarrow> Inl e
      | Inr (target_month, target_year) \<Rightarrow>
          (case browser target_month target_year of
             Inl e \<Rightarrow> Inl e
           | Inr pdf_links \<Rightarrow> download_all_files stream download_path pdf_links))"

section \<open>The uploader: uploader.py\<close>

text \<open>
  \<open>_upload_file\<close>. The parameter \<open>post\<close> is the upload endpoint and the disk: for
  a local path it gives the text of the response, or the exception raised by
  \<open>open\<close>, by the POST or by \<open>raise_for_status\<close>. \<open>RequestError\<close> and \<open>IOError\<close>
  are caught.
\<close>

definition upload_file :: "(string \<Rightarrow> exn + string) \<Rightarrow> string \<Rightarrow> exn + string option" where
  "upload_file post file_path =
     (case post file_path of
        Inr response_text \<Rightarrow> Inr (Some (strip response_text))
      | Inl e \<Rightarrow> (if e = RequestError \<or> e = OSError then Inr None else Inl e))"

definition upload_files :: "(string \<Rightarrow> exn + string) \<Rightarrow> string list \<Rightarrow> exn + string list" where
  "upload_files post file_paths =
     (case executor_map (upload_file post) file_paths of
        Inl e \<Rightarrow> Inl e
      | Inr results \<Rightarrow> Inr (not_none results))"

section \<open>The orchestrator: main_runner.py\<close>

text \<open>
  What a run does, in order: the log line that opens each step, the payload of each
  call of \<open>ApiClient.store_gazette\<close> (which catches its own HTTP errors and whose
  result the orchestrator ignores), the files skipped, and the line that ends the run.
\<close>

datatype event =
    Step1
  | Step2 "string list"
  | Step3
  | StoreGazette string datetime
  | SkipStorage string string
  | Critical exn
  | NoFilesDownloaded
  | NoFilesUploaded
  | Uncaught exn
  | Completed

text \<open>
  A Python dict as the list of its items in insertion order: assigning to a key that
  is present replaces the value where the key stands.
\<close>

fun dict_setitem :: "('k \<times> 'v) list \<Rightarrow> 'k \<Rightarrow> 'v \<Rightarrow> ('k \<times> 'v) list" where
  "dict_setitem [] k v = [(k, v)]"
| "dict_setitem ((k', v') # d) k v =
     (if k' = k then (k, v) # d else (k', v') # dict_setitem d k v)"

definition dict_of :: "('k \<times> 'v) list \<Rightarrow> ('k \<times> 'v) list" where
  "dict_of pairs = foldl (\<lambda>d (k, v). dict_setitem d k v) [] pairs"

text \<open>The body of the \<open>try\<close> of step 3, up to the date.\<close>

definition parse_publication_date :: "string \<Rightarrow> exn + datetime" where
  "parse_publication_date filename =
     (case re_search_d8 filename of
        None \<Rightarrow> Inl ValueError
      | Some date_str \<Rightarrow> strptime_Ymd date_str)"

text \<open>One iteration of the loop of step 3: \<open>ValueError\<close> and \<open>IndexError\<close> are caught.\<close>

definition store_one :: "string \<Rightarrow> string \<Rightarrow> exn + event list" where
  "store_one uploaded_url file_path =
     (let filename = basename file_path
      in case parse_publication_date filename of
           Inr parsed \<Rightarrow> Inr [StoreGazette uploaded_url parsed]
         | Inl e \<Rightarrow>
             (if e = ValueError \<or> e = IndexError then Inr [SkipStorage filename uploaded_url]
              else Inl e))"

fun store_loop :: "(string \<times> string) list \<Rightarrow> event list" where
  "store_loop [] = [Completed]"
| "store_loop ((uploaded_url, file_path) # upload_map) =
     (case store_one uploaded_url file_path of
        Inl e \<Rightarrow> [Uncaught e]
      | Inr events \<Rightarrow> events @ store_loop upload_map)"

text \<open>Step 3: \<open>upload_map = dict(zip(uploaded_urls, downloaded_paths))\<close> and the loop over its items.\<close>

definition store_step :: "string list \<Rightarrow> string list \<Rightarrow> event list" where
  "store_step uploaded_urls downloaded_paths =
     store_loop (dict_of (zip uploaded_urls downloaded_paths))"

definition run_full_workflow ::
  "(string \<Rightarrow> string \<Rightarrow> exn + string list) \<Rightarrow> (string \<Rightarrow> string \<Rightarrow> exn option) \<Rightarrow>
   (string \<Rightarrow> exn + string) \<Rightarrow> string \<Rightarrow> datetime \<Rightarrow> event list" where
  "run_full_workflow browser stream post download_path today =
     Step1 #
     (case find_and_download_files browser stream download_path today of
        Inl e \<Rightarrow> [Critical e]
      | Inr downloaded_paths \<Rightarrow>
          (if downloaded_paths = [] then [NoFilesDownloaded]
           else Step2 downloaded_paths #
             (case upload_files post downloaded_paths of
                Inl e \<Rightarrow> [Critical e]
              | Inr uploaded_urls \<Rightarrow>
                  (if uploaded_urls = [] then [NoFilesUploaded]
                   else Step3 # store_step uploaded_urls downloaded_paths))))"

text \<open>The payloads handed to the storage API in a run, in order.\<close>

fun store_calls :: "event list \<Rightarrow> (string \<times> datetime) list" where
  "store_calls [] = []"
| "store_calls (StoreGazette u d # es) = (u, d) # store_calls es"
| "store_calls (e # es) = store_calls es"

section \<open>A batch of two files\<close>

text \<open>
  Two links of the portal, the paths they are saved under, a network in which the
  first link (or the upload of the first path) raises a given exception, and a day
  on which the workflow runs.
\<close>

definition two_links :: "string list" where
  "two_links = [''http://gov/a_20250701.pdf'', ''http://gov/b_20250702.pdf'']"

definition two_paths :: "string list" where
  "two_paths = [''/app/downloads/a_20250701.pdf'', ''/app/downloads/b_20250702.pdf'']"

definition first_fails :: "exn \<Rightarrow> string \<Rightarrow> string \<Rightarrow> exn option" where
  "first_fails e link save_path = (if link = ''http://gov/a_20250701.pdf'' then Some e else None)"

definition first_upload_fails :: "exn \<Rightarrow> string \<Rightarrow> exn + string" where
  "first_upload_fails e file_path =
     (if file_path = ''/app/downloads/a_20250701.pdf'' then Inl e else Inr ''http://files/b '')"

definition a_monday :: datetime where
  "a_monday = \<lparr>dt_year = 2025, dt_month = 8, dt_day = 4, dt_hour = 6, dt_minute = 0, dt_second = 0\<rparr>"

section \<open>Properties\<close>

lemma find_url_Some:
  "find (\<lambda>r. url r = u) rs = Some r \<Longrightarrow> r \<in> set rs \<and> url r = u"
  by (induction rs) (auto split: if_splits)

lemma find_url_None:
  "(find (\<lambda>r. url r = u) rs = None) = (u \<notin> url ` set rs)"
  by (induction rs) auto

lemma find_append_new:
  "find (\<lambda>r. url r = u) rs = None \<Longrightarrow> url n = u \<Longrightarrow> find (\<lambda>r. url r = u) (rs @ [n]) = Some n"
  by (induction rs) (auto split: if_splits)

text \<open>
  C5. Creating a gazette is idempotent on url: when the url of the request is already
  in the table, the row that has it is returned and the table is unchanged; a create
  keeps the urls of the table distinct; and a second create of the same request
  returns the record of the first and changes nothing.
\<close>

theorem create_gazette_idempotent:
  "(url g \<in> url ` set (rows s) \<longrightarrow>
      snd (create_gazette s g) = s \<and>
      fst (create_gazette s g) \<in> set (rows s) \<and>
      url (fst (create_gazette s g)) = url g) \<and>
   (distinct (map url (rows s)) \<longrightarrow> distinct (map url (rows (snd (create_gazette s g))))) \<and>
   create_gazette (snd (create_gazette s g)) g = (fst (create_gazette s g), snd (create_gazette s g))"
proof (cases "find (\<lambda>r. url r = url g) (rows s)")
  case None
  then have notin: "url g \<notin> url ` set (rows s)"
    by (simp add: find_url_None)
  define n where "n = \<lparr>url = url g, publication_date = publication_date g, gazette_id = next_id s\<rparr>"
  define s' where "s' = s\<lparr>rows := rows s @ [n], next_id := next_id s + 1\<rparr>"
  have c: "create_gazette s g = (n, s')"
    using None by (simp add: create_gazette_def Let_def n_def s'_def)
  have "find (\<lambda>r. url r = url g) (rows s') = Some n"
    using None by (simp add: s'_def n_def find_append_new)
  then have c': "create_gazette s' g = (n, s')"
    by (simp add: create_gazette_def)
  have d: "distinct (map url (rows s)) \<Longrightarrow> distinct (map url (rows s'))"
    using notin by (simp add: s'_def n_def)
  show ?thesis
    using notin d by (simp add: c c')
next
  case (Some r)
  then have r: "r \<in> set (rows s)" "url r = url g"
    using find_url_Some by fastforce+
  have c: "create_gazette s g = (r, s)"
    using Some by (simp add: create_gazette_def)
  show ?thesis
    using r by (simp add: c)
qed

text \<open>
  C6. A request with a year and no month is expected to be answered with status 400.
  With \<open>year=0\<close> and no month the handler answers with the unfiltered page of
  records instead.
\<close>

theorem read_gazettes_year_zero_alone:
  "get_gazettes_route None (Some 0) skip limit s = Inr (get_gazettes s skip limit)"
  by (simp add: get_gazettes_route_def read_gazettes_def)

lemma read_gazettes_one_parameter:
  "1 \<le> m \<Longrightarrow> m \<le> 12 \<Longrightarrow> get_gazettes_route (Some m) None skip limit s = Inl (HTTPException 400)"
  "y \<noteq> 0 \<Longrightarrow> get_gazettes_route None (Some y) skip limit s = Inl (HTTPException 400)"
  by (auto simp add: get_gazettes_route_def read_gazettes_def)

text \<open>
  C7. For a request with a month in 1..12 and a year, over a table whose dates are
  Python dates (year at least 1), the records of the response are exactly the stored
  records of that month and year; when the year is not 0 the response is the
  filtered table itself.
\<close>

theorem read_gazettes_month_year:
  assumes "1 \<le> m" and "m \<le> 12"
    and "\<forall>r \<in> set (rows s). 1 \<le> dt_year (publication_date r)"
  shows "set (response_records (get_gazettes_route (Some m) (Some y) skip limit s)) =
           {r \<in> set (rows s). dt_month (publication_date r) = m \<and> dt_year (publication_date r) = y} \<and>
         (y \<noteq> 0 \<longrightarrow>
            get_gazettes_route (Some m) (Some y) skip limit s =
              Inr (filter (\<lambda>r. dt_month (publication_date r) = m \<and> dt_year (publication_date r) = y) (rows s)))"
proof (cases "y = 0")
  case True
  have "get_gazettes_route (Some m) (Some y) skip limit s = Inl (HTTPException 400)"
    using assms True by (simp add: get_gazettes_route_def read_gazettes_def)
  moreover have "{r \<in> set (rows s). dt_month (publication_date r) = m \<and> dt_year (publication_date r) = y} = {}"
    using assms(3) True by auto
  ultimately show ?thesis using True by simp
next
  case False
  have "get_gazettes_route (Some m) (Some y) skip limit s =
          Inr (filter (\<lambda>r. dt_month (publication_date r) = m \<and> dt_year (publication_date r) = y) (rows s))"
    using assms False
    by (auto simp add: get_gazettes_route_def read_gazettes_def get_gazettes_by_month_year_def conj_commute)
  then show ?thesis by auto
qed

text \<open>
  C10. The handler tests its parameters by truth value: a request with a month in
  1..12 and \<open>year=0\<close> is answered with status 400, and with \<open>year=0\<close> the handler
  never filters, whatever the month: it answers 400 or the unfiltered page.
\<close>

theorem read_gazettes_year_zero:
  "(1 \<le> m \<and> m \<le> 12 \<longrightarrow>
      get_gazettes_route (Some m) (Some 0) skip limit s = Inl (HTTPException 400)) \<and>
   read_gazettes month (Some 0) skip limit s =
     (if truthy month then Inl (HTTPException 400) else Inr (get_gazettes s skip limit))"
  by (simp add: get_gazettes_route_def read_gazettes_def)


theorem create_gazette_idempotent_witness:
  "url \<lparr>url = ''http://files/a.pdf'', publication_date = \<lparr>dt_year = 2025, dt_month = 7, dt_day = 2,
        dt_hour = 0, dt_minute = 0, dt_second = 0\<rparr>\<rparr>
     \<in> url ` set (rows \<lparr>rows = [\<lparr>url = ''http://files/a.pdf'', publication_date = \<lparr>dt_year = 2025,
        dt_month = 7, dt_day = 1, dt_hour = 0, dt_minute = 0, dt_second = 0\<rparr>, gazette_id = 1\<rparr>],
        next_id = 2\<rparr>) \<and>
   create_gazette \<lparr>rows = [\<lparr>url = ''http://files/a.pdf'', publication_date = \<lparr>dt_year = 2025,
        dt_month = 7, dt_day = 1, dt_hour = 0, dt_minute = 0, dt_second = 0\<rparr>, gazette_id = 1\<rparr>],
        next_id = 2\<rparr>
     \<lparr>url = ''http://files/a.pdf'', publication_date = \<lparr>dt_year = 2025, dt_month = 7, dt_day = 2,
        dt_hour = 0, dt_minute = 0, dt_second = 0\<rparr>\<rparr>
   = (\<lparr>url = ''http://files/a.pdf'', publication_date = \<lparr>dt_year = 2025,
        dt_month = 7, dt_day = 1, dt_hour = 0, dt_minute = 0, dt_second = 0\<rparr>, gazette_id = 1\<rparr>,
      \<lparr>rows = [\<lparr>url = ''http://files/a.pdf'', publication_date = \<lparr>dt_year = 2025,
        dt_month = 7, dt_day = 1, dt_hour = 0, dt_minute = 0, dt_second = 0\<rparr>, gazette_id = 1\<rparr>],
        next_id = 2\<rparr>)"
  using create_gazette_idempotent
    [of "\<lparr>url = ''http://files/a.pdf'', publication_date = \<lparr>dt_year = 2025, dt_month = 7, dt_day = 2,
        dt_hour = 0, dt_minute = 0, dt_second = 0\<rparr>\<rparr>"
        "\<lparr>rows = [\<lparr>url = ''http://files/a.pdf'', publication_date = \<lparr>dt_year = 2025,
        dt_month = 7, dt_day = 1, dt_hour = 0, dt_minute = 0, dt_second = 0\<rparr>, gazette_id = 1\<rparr>],
        next_id = 2\<rparr>"]
  by (simp add: create_gazette_def)

theorem read_gazettes_month_year_witness:
  "get_gazettes_route (Some 7) (Some 2025) 0 100
     \<lparr>rows = [\<lparr>url = ''http://files/a.pdf'', publication_date = \<lparr>dt_year = 2025,
                dt_month = 7, dt_day = 1, dt_hour = 0, dt_minute = 0, dt_second = 0\<rparr>, gazette_id = 1\<rparr>,
              \<lparr>url = ''http://files/b.pdf'', publication_date = \<lparr>dt_year = 2025,
                dt_month = 8, dt_day = 1, dt_hour = 0, dt_minute = 0, dt_second = 0\<rparr>, gazette_id = 2\<rparr>],
       next_id = 3\<rparr>
   = Inr [\<lparr>url = ''http://files/a.pdf'', publication_date = \<lparr>dt_year = 2025,
                dt_month = 7, dt_day = 1, dt_hour = 0, dt_minute = 0, dt_second = 0\<rparr>, gazette_id = 1\<rparr>]"
  using read_gazettes_month_year
    [of 7 "\<lparr>rows = [\<lparr>url = ''http://files/a.pdf'', publication_date = \<lparr>dt_year = 2025,
                dt_month = 7, dt_day = 1, dt_hour = 0, dt_minute = 0, dt_second = 0\<rparr>, gazette_id = 1\<rparr>,
              \<lparr>url = ''http://files/b.pdf'', publication_date = \<lparr>dt_year = 2025,
                dt_month = 8, dt_day = 1, dt_hour = 0, dt_minute = 0, dt_second = 0\<rparr>, gazette_id = 2\<rparr>],
       next_id = 3\<rparr>" 2025 0 100]
  by simp

theorem read_gazettes_year_zero_witness:
  "(1::int) \<le> 7 \<and> (7::int) \<le> 12 \<and>
   get_gazettes_route (Some 7) (Some 0) 0 100 \<lparr>rows = [], next_id = 1\<rparr> = Inl (HTTPException 400)"
  using read_gazettes_year_zero [of 7 0 100 "\<lparr>rows = [], next_id = 1\<rparr>" None]
  by simp

lemma days_in_month_ge:
  assumes "1 \<le> m" and "m \<le> 12"
  shows "28 \<le> days_in_month y m"
proof -
  from assms have "m = 1 \<or> m = 2 \<or> m = 3 \<or> m = 4 \<or> m = 5 \<or> m = 6 \<or> m = 7 \<or> m = 8 \<or>
      m = 9 \<or> m = 10 \<or> m = 11 \<or> m = 12"
    by arith
  then show ?thesis
    by (elim disjE) (simp_all add: days_in_month_def)
qed


lemma digit_char_digit:
  assumes "0 \<le> n" and "n \<le> 9"
  shows "isdigit (digit_char n) \<and> digit_value (digit_char n) = n"
proof -
  from assms have "n \<in> {0, 1, 2, 3, 4, 5, 6, 7, 8, 9}"
    by simp arith
  then show ?thesis
    by (auto simp add: digit_char_def isdigit_def digit_value_def)
qed

lemma zero_pad2_value:
  assumes "0 \<le> n" and "n \<le> 99"
  shows "length (zero_pad2 n) = 2 \<and> list_all isdigit (zero_pad2 n) \<and>
         int_of_digits (zero_pad2 n) = n"
proof -
  have a: "isdigit (digit_char (n div 10)) \<and> digit_value (digit_char (n div 10)) = n div 10"
    using assms by (intro digit_char_digit) auto
  have b: "isdigit (digit_char (n mod 10)) \<and> digit_value (digit_char (n mod 10)) = n mod 10"
    by (intro digit_char_digit) auto
  show ?thesis
    using a b by (simp add: zero_pad2_def int_of_digits_def)
qed

lemma three_digits: "10 * (10 * ((n::int) div 100) + n div 10 mod 10) + n mod 10 = n"
proof -
  have "10 * (n div 10 div 10) + n div 10 mod 10 = n div 10"
    by (rule mult_div_mod_eq)
  moreover have "n div 100 = n div 10 div 10"
    by (simp add: zdiv_zmult2_eq)
  ultimately have "10 * (10 * (n div 100) + n div 10 mod 10) + n mod 10 = 10 * (n div 10) + n mod 10"
    by simp
  also have "\<dots> = n"
    by (rule mult_div_mod_eq)
  finally show ?thesis .
qed

lemma four_digits:
  "10 * (10 * (10 * ((n::int) div 1000) + n div 100 mod 10) + n div 10 mod 10) + n mod 10 = n"
proof -
  have "10 * (n div 100 div 10) + n div 100 mod 10 = n div 100"
    by (rule mult_div_mod_eq)
  moreover have "n div 1000 = n div 100 div 10"
    by (simp add: zdiv_zmult2_eq)
  ultimately have "10 * (n div 1000) + n div 100 mod 10 = n div 100"
    by simp
  then show ?thesis
    using three_digits [of n] by simp
qed



lemma digit_char_lead: "0 < k \<Longrightarrow> k \<le> 9 \<Longrightarrow> digit_char k \<noteq> CHR ''0''"
proof
  assume k: "0 < k" "k \<le> 9" and e: "digit_char k = CHR ''0''"
  have "digit_value (digit_char k) = k"
    using k digit_char_digit [of k] by simp
  then have "digit_value (CHR ''0'') = k"
    by (simp add: e)
  then show False
    using k by (simp add: digit_value_def)
qed

lemma digit_bounds:
  "0 \<le> (n::int) mod 10" "(n::int) mod 10 \<le> 9"
  "0 \<le> n \<Longrightarrow> n \<le> 9999 \<Longrightarrow> 0 \<le> n div 1000 \<and> n div 1000 \<le> 9"
  "1000 \<le> n \<Longrightarrow> 0 < n div 1000"
  "0 \<le> n \<Longrightarrow> n < 1000 \<Longrightarrow> 0 \<le> n div 100 \<and> n div 100 \<le> 9"
  "100 \<le> n \<Longrightarrow> 0 < n div 100"
  "0 \<le> n \<Longrightarrow> n < 100 \<Longrightarrow> 0 \<le> n div 10 \<and> n div 10 \<le> 9"
  "10 \<le> n \<Longrightarrow> 0 < n div 10"
  by auto


lemma digit_unit: "isdigit (digit_char (k mod 10)) \<and> digit_value (digit_char (k mod 10)) = k mod 10"
  by (rule digit_char_digit) (rule digit_bounds)+

lemma decimal_1:
  assumes "1 \<le> n" and "n < 10"
  shows "decimal n = [digit_char n] \<and> digit_char n \<noteq> CHR ''0'' \<and> isdigit (digit_char n) \<and>
         digit_value (digit_char n) = n"
proof -
  have "isdigit (digit_char n) \<and> digit_value (digit_char n) = n"
    using assms by (intro digit_char_digit) simp_all
  moreover have "digit_char n \<noteq> CHR ''0''"
    using assms by (intro digit_char_lead) simp_all
  ultimately show ?thesis
    using assms by (simp add: decimal_def)
qed

lemma decimal_2:
  assumes "10 \<le> n" and "n < 100"
  shows "decimal n = [digit_char (n div 10), digit_char (n mod 10)] \<and>
         digit_char (n div 10) \<noteq> CHR ''0'' \<and> isdigit (digit_char (n div 10)) \<and>
         digit_value (digit_char (n div 10)) = n div 10"
proof -
  have b: "0 \<le> n div 10 \<and> n div 10 \<le> 9" "0 < n div 10"
    using assms digit_bounds(7) [of n] digit_bounds(8) [of n] by simp_all
  have "isdigit (digit_char (n div 10)) \<and> digit_value (digit_char (n div 10)) = n div 10"
    using b by (intro digit_char_digit) simp_all
  moreover have "digit_char (n div 10) \<noteq> CHR ''0''"
    using b by (intro digit_char_lead) simp_all
  ultimately show ?thesis
    using assms by (simp add: decimal_def)
qed

lemma decimal_3:
  assumes "100 \<le> n" and "n < 1000"
  shows "decimal n = [digit_char (n div 100), digit_char (n div 10 mod 10), digit_char (n mod 10)] \<and>
         digit_char (n div 100) \<noteq> CHR ''0'' \<and> isdigit (digit_char (n div 100)) \<and>
         digit_value (digit_char (n div 100)) = n div 100"
proof -
  have b: "0 \<le> n div 100 \<and> n div 100 \<le> 9" "0 < n div 100"
    using assms digit_bounds(5) [of n] digit_bounds(6) [of n] by simp_all
  have "isdigit (digit_char (n div 100)) \<and> digit_value (digit_char (n div 100)) = n div 100"
    using b by (intro digit_char_digit) simp_all
  moreover have "digit_char (n div 100) \<noteq> CHR ''0''"
    using b by (intro digit_char_lead) simp_all
  ultimately show ?thesis
    using assms by (simp add: decimal_def)
qed

lemma decimal_4:
  assumes "1000 \<le> n" and "n \<le> 9999"
  shows "decimal n = [digit_char (n div 1000), digit_char (n div 100 mod 10),
           digit_char (n div 10 mod 10), digit_char (n mod 10)] \<and>
         digit_char (n div 1000) \<noteq> CHR ''0'' \<and> isdigit (digit_char (n div 1000)) \<and>
         digit_value (digit_char (n div 1000)) = n div 1000"
proof -
  have b: "0 \<le> n div 1000 \<and> n div 1000 \<le> 9" "0 < n div 1000"
    using assms digit_bounds(3) [of n] digit_bounds(4) [of n] by simp_all
  have "isdigit (digit_char (n div 1000)) \<and> digit_value (digit_char (n div 1000)) = n div 1000"
    using b by (intro digit_char_digit) simp_all
  moreover have "digit_char (n div 1000) \<noteq> CHR ''0''"
    using b by (intro digit_char_lead) simp_all
  ultimately show ?thesis
    using assms by (simp add: decimal_def)
qed


lemma int_of_digits_nested:
  "int_of_digits [a] = digit_value a"
  "int_of_digits [a, b] = 10 * digit_value a + digit_value b"
  "int_of_digits [a, b, c] = 10 * (10 * digit_value a + digit_value b) + digit_value c"
  "int_of_digits [a, b, c, d] =
     10 * (10 * (10 * digit_value a + digit_value b) + digit_value c) + digit_value d"
  by (simp_all add: int_of_digits_def)

lemma decimal_value:
  assumes "1 \<le> n" and "n \<le> 9999"
  shows "decimal n \<noteq> [] \<and> hd (decimal n) \<noteq> CHR ''0'' \<and> list_all isdigit (decimal n) \<and>
         int_of_digits (decimal n) = n"
proof -
  note u = digit_unit [of n]
  note t = digit_unit [of "n div 10"]
  note h = digit_unit [of "n div 100"]
  consider "n < 10" | "10 \<le> n" "n < 100" | "100 \<le> n" "n < 1000" | "1000 \<le> n"
    by linarith
  then show ?thesis
  proof cases
    case 1
    note d = decimal_1 [OF assms(1) 1]
    have "decimal n = [digit_char n]" using d by blast
    then show ?thesis
      using d by (simp add: int_of_digits_nested)
  next
    case 2
    note d = decimal_2 [OF 2]
    have e: "decimal n = [digit_char (n div 10), digit_char (n mod 10)]" using d by blast
    have "int_of_digits (decimal n) = 10 * (n div 10) + n mod 10"
      using d u by (simp add: e int_of_digits_nested)
    also have "\<dots> = n" by (rule mult_div_mod_eq)
    finally have "int_of_digits (decimal n) = n" .
    then show ?thesis
      using d u by (simp add: e)
  next
    case 3
    note d = decimal_3 [OF 3]
    have e: "decimal n = [digit_char (n div 100), digit_char (n div 10 mod 10), digit_char (n mod 10)]"
      using d by blast
    have "int_of_digits (decimal n) = 10 * (10 * (n div 100) + n div 10 mod 10) + n mod 10"
      using d t u by (simp add: e int_of_digits_nested)
    also have "\<dots> = n" by (rule three_digits)
    finally have "int_of_digits (decimal n) = n" .
    then show ?thesis
      using d t u by (simp add: e)
  next
    case 4
    note d = decimal_4 [OF 4 assms(2)]
    have e: "decimal n = [digit_char (n div 1000), digit_char (n div 100 mod 10),
        digit_char (n div 10 mod 10), digit_char (n mod 10)]"
      using d by blast
    have "int_of_digits (decimal n) =
        10 * (10 * (10 * (n div 1000) + n div 100 mod 10) + n div 10 mod 10) + n mod 10"
      using d h t u by (simp add: e int_of_digits_nested)
    also have "\<dots> = n" by (rule four_digits)
    finally have "int_of_digits (decimal n) = n" .
    then show ?thesis
      using d h t u by (simp add: e)
  qed
qed


text \<open>
  C9. For every current date that Python can hold, other than one in January of year
  1 (which has no previous month in Python's range of years), the month and year the
  scraper selects are those of the previous calendar month: the month before, with
  the year one less exactly when the current month is January, and the day cut down
  to the length of that month. The two strings selected in the form are the decimal
  numerals of that month and that year: two digits for the month, and for the year
  its digits with no leading zero.
\<close>

theorem perform_search_previous_month:
  assumes "check_date_fields (dt_year today) (dt_month today) (dt_day today)"
    and "1 < dt_year today \<or> 1 < dt_month today"
  shows "previous_month_date today =
           Inr (today\<lparr>dt_year := (if dt_month today = 1 then dt_year today - 1 else dt_year today),
                       dt_month := (if dt_month today = 1 then 12 else dt_month today - 1),
                       dt_day := min (days_in_month
                                   (if dt_month today = 1 then dt_year today - 1 else dt_year today)
                                   (if dt_month today = 1 then 12 else dt_month today - 1))
                                 (dt_day today)\<rparr>) \<and>
         (\<exists>target_month target_year.
            perform_search_target today = Inr (target_month, target_year) \<and>
            length target_month = 2 \<and> list_all isdigit target_month \<and>
            int_of_digits target_month = (if dt_month today = 1 then 12 else dt_month today - 1) \<and>
            target_year \<noteq> [] \<and> hd target_year \<noteq> CHR ''0'' \<and> list_all isdigit target_year \<and>
            int_of_digits target_year =
              (if dt_month today = 1 then dt_year today - 1 else dt_year today))"
proof -
  define Y where "Y = (if dt_month today = 1 then dt_year today - 1 else dt_year today)"
  define M where "M = (if dt_month today = 1 then 12 else dt_month today - 1)"
  define D where "D = min (days_in_month Y M) (dt_day today)"
  from assms have rng: "1 \<le> Y" "Y \<le> 9999" "1 \<le> M" "M \<le> 12" "1 \<le> dt_day today"
    by (auto simp add: check_date_fields_def Y_def M_def)
  have "28 \<le> days_in_month Y M"
    using rng by (simp add: days_in_month_ge)
  then have ok: "check_date_fields Y M D"
    using rng by (simp add: check_date_fields_def D_def)
  have YM: "(if 12 < dt_month today - 1 then dt_year today + 1
             else if dt_month today - 1 < 1 then dt_year today - 1 else dt_year today) = Y"
    "(if 12 < dt_month today - 1 then dt_month today - 1 - 12
      else if dt_month today - 1 < 1 then dt_month today - 1 + 12 else dt_month today - 1) = M"
    using assms(1) by (auto simp add: check_date_fields_def Y_def M_def)
  have p: "previous_month_date today = Inr (today\<lparr>dt_year := Y, dt_month := M, dt_day := D\<rparr>)"
    using ok unfolding previous_month_date_def Let_def YM D_def by simp
  have t: "perform_search_target today = Inr (zero_pad2 M, decimal Y)"
    by (simp add: perform_search_target_def p strftime_m_def strftime_Y_def)
  have m: "length (zero_pad2 M) = 2 \<and> list_all isdigit (zero_pad2 M) \<and>
      int_of_digits (zero_pad2 M) = M"
    using rng by (intro zero_pad2_value) auto
  have y: "decimal Y \<noteq> [] \<and> hd (decimal Y) \<noteq> CHR ''0'' \<and> list_all isdigit (decimal Y) \<and>
      int_of_digits (decimal Y) = Y"
    using rng by (intro decimal_value) auto
  have "\<exists>target_month target_year.
      perform_search_target today = Inr (target_month, target_year) \<and>
      length target_month = 2 \<and> list_all isdigit target_month \<and> int_of_digits target_month = M \<and>
      target_year \<noteq> [] \<and> hd target_year \<noteq> CHR ''0'' \<and> list_all isdigit target_year \<and>
      int_of_digits target_year = Y"
    using t m y by blast
  with p show ?thesis
    unfolding Y_def M_def D_def by simp
qed

text \<open>
  Run in January 2026 the scraper searches 12/2025; run on 31 March 2025 it searches
  02/2025 (from 28 February); run in June 999 it would search 05/999.
\<close>

theorem perform_search_previous_month_witness:
  "perform_search_target \<lparr>dt_year = 2026, dt_month = 1, dt_day = 15, dt_hour = 9, dt_minute = 30, dt_second = 0\<rparr>
     = Inr (''12'', ''2025'') \<and>
   perform_search_target \<lparr>dt_year = 2025, dt_month = 3, dt_day = 31, dt_hour = 9, dt_minute = 30, dt_second = 0\<rparr>
     = Inr (''02'', ''2025'') \<and>
   previous_month_date \<lparr>dt_year = 2025, dt_month = 3, dt_day = 31, dt_hour = 9, dt_minute = 30, dt_second = 0\<rparr>
     = Inr \<lparr>dt_year = 2025, dt_month = 2, dt_day = 28, dt_hour = 9, dt_minute = 30, dt_second = 0\<rparr> \<and>
   perform_search_target \<lparr>dt_year = 999, dt_month = 6, dt_day = 10, dt_hour = 9, dt_minute = 30, dt_second = 0\<rparr>
     = Inr (''05'', ''999'')"
proof -
  have a: "previous_month_date
      \<lparr>dt_year = 2026, dt_month = 1, dt_day = 15, dt_hour = 9, dt_minute = 30, dt_second = 0\<rparr> =
      Inr \<lparr>dt_year = 2025, dt_month = 12, dt_day = 15, dt_hour = 9, dt_minute = 30, dt_second = 0\<rparr>"
    using perform_search_previous_month
      [of "\<lparr>dt_year = 2026, dt_month = 1, dt_day = 15, dt_hour = 9, dt_minute = 30, dt_second = 0\<rparr>"]
    by (simp add: check_date_fields_def days_in_month_def)
  have b: "previous_month_date
      \<lparr>dt_year = 2025, dt_month = 3, dt_day = 31, dt_hour = 9, dt_minute = 30, dt_second = 0\<rparr> =
      Inr \<lparr>dt_year = 2025, dt_month = 2, dt_day = 28, dt_hour = 9, dt_minute = 30, dt_second = 0\<rparr>"
    using perform_search_previous_month
      [of "\<lparr>dt_year = 2025, dt_month = 3, dt_day = 31, dt_hour = 9, dt_minute = 30, dt_second = 0\<rparr>"]
    by (simp add: check_date_fields_def days_in_month_def isleap_def)
  have c: "previous_month_date
      \<lparr>dt_year = 999, dt_month = 6, dt_day = 10, dt_hour = 9, dt_minute = 30, dt_second = 0\<rparr> =
      Inr \<lparr>dt_year = 999, dt_month = 5, dt_day = 10, dt_hour = 9, dt_minute = 30, dt_second = 0\<rparr>"
    using perform_search_previous_month
      [of "\<lparr>dt_year = 999, dt_month = 6, dt_day = 10, dt_hour = 9, dt_minute = 30, dt_second = 0\<rparr>"]
    by (simp add: check_date_fields_def days_in_month_def)
  show ?thesis
    by (simp add: perform_search_target_def a b c strftime_m_def strftime_Y_def zero_pad2_def
        decimal_def digit_char_def)
qed


lemma previous_month_year_one:
  "previous_month_date \<lparr>dt_year = 1, dt_month = 1, dt_day = 15, dt_hour = 0, dt_minute = 0, dt_second = 0\<rparr>
     = Inl ValueError"
  by (simp add: previous_month_date_def check_date_fields_def)

lemma re_search_d8_digits:
  "re_search_d8 s = Some t \<Longrightarrow> length t = 8 \<and> list_all isdigit t"
  by (induction s) (auto split: if_splits)

lemma re_search_d8_leftmost:
  assumes "length tok = 8" and "list_all isdigit tok"
    and "\<forall>i<length pre. \<not> list_all isdigit (take 8 (drop i (pre @ tok @ post)))"
  shows "re_search_d8 (pre @ tok @ post) = Some tok"
  using assms(3)
proof (induction pre)
  case Nil
  obtain c cs where "tok @ post = c # cs"
    using assms(1) by (cases tok) auto
  moreover have "8 \<le> length (tok @ post)" "take 8 (tok @ post) = tok"
    using assms(1) by simp_all
  ultimately show ?case
    using assms(2) by (metis append_Nil re_search_d8.simps(2))
next
  case (Cons c pre)
  define rest where "rest = pre @ tok @ post"
  have "\<not> list_all isdigit (take 8 (drop 0 ((c # pre) @ tok @ post)))"
    using Cons.prems by blast
  then have no: "\<not> list_all isdigit (take 8 (c # rest))"
    by (simp add: rest_def)
  have "\<forall>i<length pre. \<not> list_all isdigit (take 8 (drop i (pre @ tok @ post)))"
  proof (intro allI impI)
    fix i assume "i < length pre"
    then have "Suc i < length (c # pre)" by simp
    then have "\<not> list_all isdigit (take 8 (drop (Suc i) ((c # pre) @ tok @ post)))"
      using Cons.prems by blast
    then show "\<not> list_all isdigit (take 8 (drop i (pre @ tok @ post)))" by simp
  qed
  then have "re_search_d8 rest = Some tok"
    unfolding rest_def by (rule Cons.IH)
  moreover have "re_search_d8 (c # rest) = re_search_d8 rest"
    using no by auto
  ultimately show ?case by (simp add: rest_def)
qed

lemma no_digit_prefix:
  assumes "list_all (\<lambda>c. \<not> isdigit c) pre"
  shows "\<forall>i<length pre. \<not> list_all isdigit (take 8 (drop i (pre @ rest)))"
proof (intro allI impI)
  fix i assume i: "i < length pre"
  then have "drop i (pre @ rest) = pre ! i # drop (Suc i) (pre @ rest)"
    by (simp add: Cons_nth_drop_Suc nth_append)
  moreover have "\<not> isdigit (pre ! i)"
    using assms i by (simp add: list_all_length)
  ultimately show "\<not> list_all isdigit (take 8 (drop i (pre @ rest)))"
    by simp
qed

lemma int_of_digits_4:
  "int_of_digits [a, b, c, d] =
     1000 * digit_value a + 100 * digit_value b + 10 * digit_value c + digit_value d"
  by (simp add: int_of_digits_def)

lemma int_of_digits_2: "int_of_digits [a, b] = 10 * digit_value a + digit_value b"
  by (simp add: int_of_digits_def)

lemma strptime_Ymd_digits:
  assumes "list_all isdigit [y1, y2, y3, y4, m1, m2, d1, d2]"
  shows "strptime_Ymd [y1, y2, y3, y4, m1, m2, d1, d2] =
     datetime_new (1000 * digit_value y1 + 100 * digit_value y2 + 10 * digit_value y3 + digit_value y4)
       (10 * digit_value m1 + digit_value m2) (10 * digit_value d1 + digit_value d2)"
  using assms by (simp add: strptime_Ymd_def int_of_digits_4 int_of_digits_2)

text \<open>
  C3, as the code has it. The token is the leftmost run of eight consecutive digits
  of the file's name. When its digits, read as YYYYMMDD, are a calendar date (year 1
  to 9999), the orchestrator hands exactly that date, at midnight, to the storage
  API together with the url; otherwise the file is skipped.
\<close>

theorem store_one_leftmost_date:
  assumes "basename file_path = pre @ [y1, y2, y3, y4, m1, m2, d1, d2] @ post"
    and "list_all isdigit [y1, y2, y3, y4, m1, m2, d1, d2]"
    and "\<forall>i<length pre. \<not> list_all isdigit (take 8 (drop i (basename file_path)))"
  shows "store_one uploaded_url file_path =
     (if check_date_fields
           (1000 * digit_value y1 + 100 * digit_value y2 + 10 * digit_value y3 + digit_value y4)
           (10 * digit_value m1 + digit_value m2) (10 * digit_value d1 + digit_value d2)
      then Inr [StoreGazette uploaded_url
             \<lparr>dt_year = 1000 * digit_value y1 + 100 * digit_value y2 + 10 * digit_value y3 + digit_value y4,
              dt_month = 10 * digit_value m1 + digit_value m2,
              dt_day = 10 * digit_value d1 + digit_value d2,
              dt_hour = 0, dt_minute = 0, dt_second = 0\<rparr>]
      else Inr [SkipStorage (basename file_path) uploaded_url])"
proof -
  have "re_search_d8 (pre @ [y1, y2, y3, y4, m1, m2, d1, d2] @ post) = Some [y1, y2, y3, y4, m1, m2, d1, d2]"
    using assms(2,3) unfolding assms(1) by (intro re_search_d8_leftmost) simp_all
  then have "parse_publication_date (basename file_path) =
      strptime_Ymd [y1, y2, y3, y4, m1, m2, d1, d2]"
    by (simp add: parse_publication_date_def assms(1))
  then show ?thesis
    by (simp add: store_one_def strptime_Ymd_digits [OF assms(2)] datetime_new_def)
qed

theorem store_one_leftmost_date_witness:
  "store_one ''http://files/u1'' ''/app/downloads/diario_20250715.pdf'' =
     Inr [StoreGazette ''http://files/u1''
           \<lparr>dt_year = 2025, dt_month = 7, dt_day = 15, dt_hour = 0, dt_minute = 0, dt_second = 0\<rparr>]"
proof -
  have b: "basename ''/app/downloads/diario_20250715.pdf'' = ''diario_'' @ ''20250715'' @ ''.pdf''"
    by (simp add: basename_def)
  have d: "list_all isdigit ''20250715''"
    by (simp add: isdigit_def)
  have "list_all (\<lambda>c. \<not> isdigit c) ''diario_''"
    by (simp add: isdigit_def)
  then have l: "\<forall>i<length ''diario_''. \<not> list_all isdigit
      (take 8 (drop i (basename ''/app/downloads/diario_20250715.pdf'')))"
    unfolding b by (rule no_digit_prefix)
  show ?thesis
    using store_one_leftmost_date [OF b d l, of "''http://files/u1''"]
    by (simp add: digit_value_def check_date_fields_def days_in_month_def)
qed

text \<open>
  C3 as stated fails: this name contains the date token 20250715, but the leftmost
  eight digits are 12345678, which are not a date, and the file is skipped.
\<close>

theorem parse_publication_date_counterexample:
  "take 8 (drop 9 ''12345678_20250715.pdf'') = ''20250715'' \<and>
   list_all isdigit ''20250715'' \<and>
   strptime_Ymd ''20250715'' =
     Inr \<lparr>dt_year = 2025, dt_month = 7, dt_day = 15, dt_hour = 0, dt_minute = 0, dt_second = 0\<rparr> \<and>
   re_search_d8 ''12345678_20250715.pdf'' = Some ''12345678'' \<and>
   parse_publication_date ''12345678_20250715.pdf'' = Inl ValueError \<and>
   store_one ''http://files/u1'' ''/app/downloads/12345678_20250715.pdf'' =
     Inr [SkipStorage ''12345678_20250715.pdf'' ''http://files/u1'']"
  by (simp add: store_one_def parse_publication_date_def strptime_Ymd_def datetime_new_def
      check_date_fields_def days_in_month_def isdigit_def int_of_digits_def digit_value_def
      basename_def)

lemma strptime_Ymd_raises: "strptime_Ymd s = Inl e \<Longrightarrow> e = ValueError"
  by (auto simp add: strptime_Ymd_def datetime_new_def split: if_splits)

lemma parse_publication_date_raises: "parse_publication_date f = Inl e \<Longrightarrow> e = ValueError"
  by (auto simp add: parse_publication_date_def split: option.splits dest: strptime_Ymd_raises)

lemma store_one_returns:
  "store_one u p =
     Inr (case parse_publication_date (basename p) of
            Inr parsed \<Rightarrow> [StoreGazette u parsed]
          | Inl e \<Rightarrow> [SkipStorage (basename p) u])"
  by (auto simp add: store_one_def split: sum.splits dest: parse_publication_date_raises)

lemma store_calls_append: "store_calls (xs @ ys) = store_calls xs @ store_calls ys"
  by (induction xs rule: store_calls.induct) simp_all

lemma store_loop_nonempty: "store_loop xs \<noteq> []"
proof (cases xs)
  case Nil
  then show ?thesis by simp
next
  case (Cons x rest)
  obtain u p where "x = (u, p)" by (cases x)
  then show ?thesis
    using Cons by (simp add: store_one_returns split: sum.splits)
qed

lemma store_loop_append:
  "store_loop (xs @ ys) = butlast (store_loop xs) @ store_loop ys \<and> last (store_loop xs) = Completed"
proof (induction xs)
  case Nil
  show ?case by simp
next
  case (Cons x xs)
  obtain u p where x: "x = (u, p)" by (cases x)
  have ne: "store_loop xs \<noteq> []"
    by (rule store_loop_nonempty)
  show ?case
    using Cons ne by (simp add: x store_one_returns butlast_append)
qed

lemma store_calls_butlast:
  "store_calls (butlast (store_loop xs)) = store_calls (store_loop xs)"
proof -
  have ne: "store_loop xs \<noteq> []"
    by (rule store_loop_nonempty)
  have "last (store_loop xs) = Completed"
    using store_loop_append [of xs "[]"] by simp
  then have "store_loop xs = butlast (store_loop xs) @ [Completed]"
    using ne by (metis append_butlast_last_id)
  then have "store_calls (store_loop xs) = store_calls (butlast (store_loop xs) @ [Completed])"
    by simp
  then show ?thesis
    by (simp add: store_calls_append)
qed

text \<open>
  C4. When the name of a file has no run of eight digits, the iteration of that file
  makes no call to the storage API (it only logs the skip), the calls made for the
  other items of the batch are the ones made without it, and the loop runs to the
  end of the workflow.
\<close>

theorem store_loop_skips_undated:
  assumes "re_search_d8 (basename file_path) = None"
  shows "store_one uploaded_url file_path = Inr [SkipStorage (basename file_path) uploaded_url] \<and>
         store_calls (store_loop (before @ (uploaded_url, file_path) # after)) =
           store_calls (store_loop before) @ store_calls (store_loop after) \<and>
         last (store_loop (before @ (uploaded_url, file_path) # after)) = Completed"
proof -
  have one: "store_one uploaded_url file_path = Inr [SkipStorage (basename file_path) uploaded_url]"
    using assms by (simp add: store_one_returns parse_publication_date_def)
  have "store_loop (before @ (uploaded_url, file_path) # after) =
          butlast (store_loop before) @ SkipStorage (basename file_path) uploaded_url # store_loop after"
    using store_loop_append [of before "(uploaded_url, file_path) # after"] by (simp add: one)
  then have "store_calls (store_loop (before @ (uploaded_url, file_path) # after)) =
      store_calls (store_loop before) @ store_calls (store_loop after)"
    by (simp add: store_calls_append store_calls_butlast)
  moreover have "last (store_loop (before @ (uploaded_url, file_path) # after)) = Completed"
    using store_loop_append [of "before @ (uploaded_url, file_path) # after" "[]"] by simp
  ultimately show ?thesis using one by simp
qed

theorem store_loop_skips_undated_witness:
  "store_loop [(''http://files/u1'', ''/app/downloads/notes.pdf''),
               (''http://files/u2'', ''/app/downloads/diario_20250715.pdf'')] =
     [SkipStorage ''notes.pdf'' ''http://files/u1'',
      StoreGazette ''http://files/u2''
        \<lparr>dt_year = 2025, dt_month = 7, dt_day = 15, dt_hour = 0, dt_minute = 0, dt_second = 0\<rparr>,
      Completed]"
proof -
  have n: "re_search_d8 (basename ''/app/downloads/notes.pdf'') = None"
    by (simp add: basename_def isdigit_def)
  have "store_one ''http://files/u2'' ''/app/downloads/diario_20250715.pdf'' =
     Inr [StoreGazette ''http://files/u2''
           \<lparr>dt_year = 2025, dt_month = 7, dt_day = 15, dt_hour = 0, dt_minute = 0, dt_second = 0\<rparr>]"
    by (simp add: store_one_def parse_publication_date_def strptime_Ymd_def datetime_new_def
      check_date_fields_def days_in_month_def isdigit_def int_of_digits_def digit_value_def
      basename_def)
  then have two: "store_loop [(''http://files/u2'', ''/app/downloads/diario_20250715.pdf'')] =
     [StoreGazette ''http://files/u2''
        \<lparr>dt_year = 2025, dt_month = 7, dt_day = 15, dt_hour = 0, dt_minute = 0, dt_second = 0\<rparr>,
      Completed]"
    by simp
  have "store_one ''http://files/u1'' ''/app/downloads/notes.pdf'' =
      Inr [SkipStorage (basename ''/app/downloads/notes.pdf'') ''http://files/u1'']"
    using store_loop_skips_undated [OF n, of "''http://files/u1''" "[]" "[]"] by blast
  then have one: "store_one ''http://files/u1'' ''/app/downloads/notes.pdf'' =
      Inr [SkipStorage ''notes.pdf'' ''http://files/u1'']"
    by (simp add: basename_def)
  show ?thesis
    unfolding store_loop.simps(2) [of "''http://files/u1''"] one two by simp
qed

text \<open>
  C8. The stages run in sequence and an empty or failed stage ends the run: when the
  scrape stage raises or yields no files, neither the upload step nor the store step
  is entered; when the upload stage raises or yields no urls, the store step is not
  entered; and the store step, or any call to the storage API, is only ever reached
  after a scrape and an upload that both returned a non-empty list.
\<close>

theorem run_full_workflow_stages:
  "(find_and_download_files browser stream download_path today = Inl e \<longrightarrow>
      run_full_workflow browser stream post download_path today = [Step1, Critical e]) \<and>
   (find_and_download_files browser stream download_path today = Inr [] \<longrightarrow>
      run_full_workflow browser stream post download_path today = [Step1, NoFilesDownloaded]) \<and>
   (find_and_download_files browser stream download_path today = Inr paths \<and> paths \<noteq> [] \<and>
    upload_files post paths = Inl e \<longrightarrow>
      run_full_workflow browser stream post download_path today = [Step1, Step2 paths, Critical e]) \<and>
   (find_and_download_files browser stream download_path today = Inr paths \<and> paths \<noteq> [] \<and>
    upload_files post paths = Inr [] \<longrightarrow>
      run_full_workflow browser stream post download_path today = [Step1, Step2 paths, NoFilesUploaded]) \<and>
   (find_and_download_files browser stream download_path today = Inr paths \<and> paths \<noteq> [] \<and>
    upload_files post paths = Inr urls \<and> urls \<noteq> [] \<longrightarrow>
      run_full_workflow browser stream post download_path today =
        Step1 # Step2 paths # Step3 # store_step urls paths) \<and>
   (Step3 \<in> set (run_full_workflow browser stream post download_path today) \<or>
    store_calls (run_full_workflow browser stream post download_path today) \<noteq> [] \<longrightarrow>
      (\<exists>ps us. ps \<noteq> [] \<and> us \<noteq> [] \<and>
         find_and_download_files browser stream download_path today = Inr ps \<and>
         upload_files post ps = Inr us))"
  by (auto simp add: run_full_workflow_def split: sum.splits if_splits)

lemma download_two:
  "download_all_files (\<lambda>link save_path. None) ''/app/downloads'' two_links = Inr two_paths"
  by (simp add: download_all_files_def download_file_def two_links_def two_paths_def
      basename_def path_join_def)

lemma scrape_two:
  "find_and_download_files (\<lambda>m y. Inr two_links) (\<lambda>link save_path. None) ''/app/downloads'' a_monday
     = Inr two_paths"
  by (simp add: find_and_download_files_def perform_search_target_def previous_month_date_def
      a_monday_def check_date_fields_def days_in_month_def download_two split: sum.splits)

lemma upload_second_only:
  "upload_files (first_upload_fails RequestError) two_paths = Inr [''http://files/b'']"
  by (simp add: upload_files_def upload_file_def first_upload_fails_def two_paths_def
      strip_def isspace_def)

lemma store_step_shifted:
  "store_step [''http://files/b''] two_paths =
     [StoreGazette ''http://files/b''
        \<lparr>dt_year = 2025, dt_month = 7, dt_day = 1, dt_hour = 0, dt_minute = 0, dt_second = 0\<rparr>,
      Completed]"
  by (simp add: store_step_def dict_of_def two_paths_def store_one_def parse_publication_date_def
      strptime_Ymd_def datetime_new_def check_date_fields_def days_in_month_def isdigit_def
      int_of_digits_def digit_value_def basename_def)

text \<open>
  C1. Each record handed to the storage API is expected to pair the url of a file's
  own upload with the date of its own name. In a run where the upload of the first
  of two downloaded files fails with a connection error, the url returned for the
  second file (named for 2 July 2025) is stored with the date of the first file
  (1 July 2025): the list of urls has lost the failed item, the list of paths has
  not, and \<open>zip\<close> pairs them by position.
\<close>

theorem run_full_workflow_shifted_pairing:
  "upload_file (first_upload_fails RequestError) ''/app/downloads/b_20250702.pdf'' =
     Inr (Some ''http://files/b'') \<and>
   parse_publication_date (basename ''/app/downloads/b_20250702.pdf'') =
     Inr \<lparr>dt_year = 2025, dt_month = 7, dt_day = 2, dt_hour = 0, dt_minute = 0, dt_second = 0\<rparr> \<and>
   run_full_workflow (\<lambda>m y. Inr two_links) (\<lambda>link save_path. None)
       (first_upload_fails RequestError) ''/app/downloads'' a_monday =
     [Step1, Step2 two_paths, Step3,
      StoreGazette ''http://files/b''
        \<lparr>dt_year = 2025, dt_month = 7, dt_day = 1, dt_hour = 0, dt_minute = 0, dt_second = 0\<rparr>,
      Completed]"
proof -
  have "upload_file (first_upload_fails RequestError) ''/app/downloads/b_20250702.pdf'' =
      Inr (Some ''http://files/b'')"
    by (simp add: upload_file_def first_upload_fails_def strip_def isspace_def)
  moreover have "parse_publication_date (basename ''/app/downloads/b_20250702.pdf'') =
     Inr \<lparr>dt_year = 2025, dt_month = 7, dt_day = 2, dt_hour = 0, dt_minute = 0, dt_second = 0\<rparr>"
    by (simp add: parse_publication_date_def
      strptime_Ymd_def datetime_new_def check_date_fields_def days_in_month_def isdigit_def
      int_of_digits_def digit_value_def basename_def)
  moreover have "two_paths \<noteq> []"
    by (simp add: two_paths_def)
  ultimately show ?thesis
    by (simp add: run_full_workflow_def scrape_two upload_second_only store_step_shifted)
qed

text \<open>
  In general: one item whose exception is not caught makes the whole batch raise, for
  downloads and for uploads.
\<close>

lemma executor_map_raises:
  "x \<in> set xs \<Longrightarrow> f x = Inl e \<Longrightarrow> \<exists>e'. executor_map f xs = Inl e'"
proof (induction xs)
  case Nil
  then show ?case by simp
next
  case (Cons a xs)
  show ?case
  proof (cases "f a")
    case (Inl e0)
    then show ?thesis by simp
  next
    case (Inr y)
    show ?thesis
    proof (cases "x = a")
      case True
      then show ?thesis using Cons.prems Inr by simp
    next
      case False
      then have "x \<in> set xs" using Cons.prems by simp
      then obtain e' where "executor_map f xs = Inl e'"
        using Cons.IH Cons.prems by blast
      then show ?thesis using Inr by simp
    qed
  qed
qed

lemma download_all_files_aborts:
  assumes "link \<in> set links"
    and "stream link (path_join download_path (basename link)) = Some e" and "e \<noteq> RequestError"
  shows "\<exists>e'. download_all_files stream download_path links = Inl e'"
proof -
  have "download_file stream download_path link = Inl e"
    using assms(2,3) by (simp add: download_file_def)
  then have "\<exists>e'. executor_map (download_file stream download_path) links = Inl e'"
    by (rule executor_map_raises [OF assms(1)])
  then obtain e' where "executor_map (download_file stream download_path) links = Inl e'" ..
  then show ?thesis
    by (simp add: download_all_files_def)
qed

lemma upload_files_aborts:
  assumes "file_path \<in> set file_paths"
    and "post file_path = Inl e" and "e \<noteq> RequestError" and "e \<noteq> OSError"
  shows "\<exists>e'. upload_files post file_paths = Inl e'"
proof -
  have "upload_file post file_path = Inl e"
    using assms(2,3,4) by (simp add: upload_file_def)
  then have "\<exists>e'. executor_map (upload_file post) file_paths = Inl e'"
    by (rule executor_map_raises [OF assms(1)])
  then obtain e' where "executor_map (upload_file post) file_paths = Inl e'" ..
  then show ?thesis
    by (simp add: upload_files_def)
qed

text \<open>
  C2. A failed item is expected to be left out of the results while the others go
  through. That is what happens for a connection error of a download and for a
  connection or file error of an upload (last two equations). An HTTP error status
  (downloads and uploads) and a file error of a download are not caught: the
  exception leaves \<open>executor.map\<close> and no list of results is returned at all.
\<close>

theorem download_all_files_http_status:
  "download_all_files (first_fails HTTPStatusError) ''/app/downloads'' two_links = Inl HTTPStatusError \<and>
   download_all_files (first_fails OSError) ''/app/downloads'' two_links = Inl OSError \<and>
   upload_files (first_upload_fails HTTPStatusError) two_paths = Inl HTTPStatusError \<and>
   download_all_files (first_fails RequestError) ''/app/downloads'' two_links =
     Inr [''/app/downloads/b_20250702.pdf''] \<and>
   upload_files (first_upload_fails OSError) two_paths = Inr [''http://files/b'']"
  by (simp add: download_all_files_def download_file_def first_fails_def two_links_def
      upload_files_def upload_file_def first_upload_fails_def two_paths_def
      basename_def path_join_def strip_def isspace_def)

theorem run_full_workflow_stages_witness:
  "find_and_download_files (\<lambda>m y. Inr []) (\<lambda>link save_path. None) ''/app/downloads'' a_monday = Inr [] \<and>
   run_full_workflow (\<lambda>m y. Inr []) (\<lambda>link save_path. None) (first_upload_fails RequestError)
       ''/app/downloads'' a_monday = [Step1, NoFilesDownloaded] \<and>
   find_and_download_files (\<lambda>m y. Inr two_links) (\<lambda>link save_path. None) ''/app/downloads'' a_monday
     = Inr two_paths \<and> two_paths \<noteq> [] \<and>
   upload_files (\<lambda>p. Inl RequestError) two_paths = Inr [] \<and>
   run_full_workflow (\<lambda>m y. Inr two_links) (\<lambda>link save_path. None) (\<lambda>p. Inl RequestError)
       ''/app/downloads'' a_monday = [Step1, Step2 two_paths, NoFilesUploaded]"
proof -
  have s0: "find_and_download_files (\<lambda>m y. Inr []) (\<lambda>link save_path. None) ''/app/downloads'' a_monday
      = Inr []"
    by (simp add: find_and_download_files_def perform_search_target_def previous_month_date_def
      a_monday_def check_date_fields_def days_in_month_def download_all_files_def split: sum.splits)
  have u0: "upload_files (\<lambda>p. Inl RequestError) two_paths = Inr []"
    by (simp add: upload_files_def upload_file_def two_paths_def)
  have ne: "two_paths \<noteq> []"
    by (simp add: two_paths_def)
  show ?thesis
    using run_full_workflow_stages
      [of "\<lambda>m y. Inr []" "\<lambda>link save_path. None" "''/app/downloads''" a_monday _
          "first_upload_fails RequestError"]
      run_full_workflow_stages
      [of "\<lambda>m y. Inr two_links" "\<lambda>link save_path. None" "''/app/downloads''" a_monday _
          "\<lambda>p. Inl RequestError" two_paths]
      s0 u0 ne scrape_two
    by simp
qed

end
